theory Spec2Isabelle
  imports Main "HOL-Library.Sublist"
begin

section \<open>difftrace: mapping changed files to workspace packages\<close>

text \<open>
  A shallow embedding of \<^verbatim>\<open>src/difftrace/diff.py\<close>. A Python \<^verbatim>\<open>str\<close> is a
  \<^typ>\<open>string\<close>, one character per code point, which covers the strings whose code
  points are below 256; \<^verbatim>\<open>len\<close> is \<^const>\<open>length\<close>.
  A Python \<^verbatim>\<open>set[str]\<close> is a \<^typ>\<open>string set\<close>, and an optional argument
  whose default is \<^verbatim>\<open>None\<close> is an \<^typ>\<open>'a option\<close>.
\<close>

subsection \<open>Strings\<close>

text \<open>\<^verbatim>\<open>s.startswith(p)\<close>: the first \<^verbatim>\<open>len(p)\<close> characters of \<^verbatim>\<open>s\<close> are \<^verbatim>\<open>p\<close>.\<close>

definition startswith :: "string \<Rightarrow> string \<Rightarrow> bool" where
  "startswith s p = (take (length p) s = p)"

subsection \<open>Packages\<close>

text \<open>
  Modelled from the spec: the class \<^verbatim>\<open>WorkspacePackage\<close> of \<^verbatim>\<open>difftrace.graph\<close> is
  imported by \<^verbatim>\<open>diff.py\<close> and is not part of the sources at hand. The spec describes a
  package descriptor by the two attributes that \<^verbatim>\<open>diff.py\<close> reads: a name, and a
  \<^verbatim>\<open>source_path\<close> relative to the workspace root, with \<^verbatim>\<open>.\<close> for the virtual
  root package.
\<close>

record WorkspacePackage =
  name :: string
  source_path :: string

text \<open>
  \<^verbatim>\<open>packages: dict[str, WorkspacePackage]\<close> is an association list in insertion order;
  \<^verbatim>\<open>packages.values()\<close> lists its values in that order.
\<close>

type_synonym packages = "(string \<times> WorkspacePackage) list"

definition values_of :: "packages \<Rightarrow> WorkspacePackage list" where
  "values_of packages = map snd packages"

subsection \<open>\<^verbatim>\<open>map_files_to_packages\<close>\<close>

definition DEFAULT_ROOT_TRIGGERS :: "string set" where
  "DEFAULT_ROOT_TRIGGERS = {''pyproject.toml'', ''uv.lock''}"

definition DEFAULT_DIR_TRIGGERS :: "string set" where
  "DEFAULT_DIR_TRIGGERS = {''.github/''}"

text \<open>
  \<^verbatim>\<open>sorted(packages.values(), key=lambda p: len(p.source_path), reverse=True)\<close>.
  Python's sort is stable, also with \<^verbatim>\<open>reverse=True\<close>: packages whose keys are equal
  keep the order they have in the dictionary. \<^const>\<open>sort_key\<close> is a stable insertion
  sort in ascending order, so the key is negated.
\<close>

definition sorted_packages :: "packages \<Rightarrow> WorkspacePackage list" where
  "sorted_packages packages =
     sort_key (\<lambda>p. - int (length (source_path p))) (values_of packages)"

text \<open>
  The inner loop \<^verbatim>\<open>for pkg in sorted_packages\<close> (lines 123 to 129): the name that
  the loop adds to \<^verbatim>\<open>directly_changed\<close> before its \<^verbatim>\<open>break\<close>, or \<^const>\<open>None\<close>
  when the loop ends without adding one.
\<close>

fun match_package :: "WorkspacePackage list \<Rightarrow> string \<Rightarrow> string option" where
  "match_package [] filepath = None"
| "match_package (pkg # pkgs) filepath =
     (if source_path pkg = ''.'' then match_package pkgs filepath
      else if startswith filepath (source_path pkg @ ''/'') then Some (name pkg)
      else match_package pkgs filepath)"

text \<open>
  The outer loop \<^verbatim>\<open>for filepath in changed_files\<close> (lines 112 to 129) passes the two
  variables it assigns, \<^verbatim>\<open>directly_changed\<close> and \<^verbatim>\<open>test_all\<close>, as a pair.
\<close>

fun scan_files ::
  "string set \<Rightarrow> string set \<Rightarrow> WorkspacePackage list \<Rightarrow> string list \<Rightarrow>
   string set \<times> bool \<Rightarrow> string set \<times> bool" where
  "scan_files root_triggers dir_triggers pkgs [] st = st"
| "scan_files root_triggers dir_triggers pkgs (filepath # files) (directly_changed, test_all) =
     (if filepath \<in> root_triggers
      then scan_files root_triggers dir_triggers pkgs files (directly_changed, True)
      else if \<exists>trigger \<in> dir_triggers. startswith filepath trigger
      then scan_files root_triggers dir_triggers pkgs files (directly_changed, True)
      else (case match_package pkgs filepath of
              None \<Rightarrow> scan_files root_triggers dir_triggers pkgs files (directly_changed, test_all)
            | Some n \<Rightarrow>
                scan_files root_triggers dir_triggers pkgs files
                  (insert n directly_changed, test_all)))"

text \<open>
  Lines 97 to 100: a trigger set that is \<^verbatim>\<open>None\<close> is replaced by its default; any
  other set, the empty one included, is used as it is.
\<close>

definition root_triggers_of :: "string set option \<Rightarrow> string set" where
  "root_triggers_of root_triggers =
     (case root_triggers of None \<Rightarrow> DEFAULT_ROOT_TRIGGERS | Some s \<Rightarrow> s)"

definition dir_triggers_of :: "string set option \<Rightarrow> string set" where
  "dir_triggers_of dir_triggers =
     (case dir_triggers of None \<Rightarrow> DEFAULT_DIR_TRIGGERS | Some s \<Rightarrow> s)"

definition map_files_to_packages ::
  "string list \<Rightarrow> packages \<Rightarrow> string set option \<Rightarrow> string set option \<Rightarrow> string set \<times> bool"
  where
  "map_files_to_packages changed_files packages root_triggers dir_triggers =
     scan_files (root_triggers_of root_triggers) (dir_triggers_of dir_triggers)
       (sorted_packages packages) changed_files ({}, False)"

text \<open>
  The two tests that make the outer loop set \<^verbatim>\<open>test_all\<close> and \<^verbatim>\<open>continue\<close>, as one
  predicate on a file, for stating properties.
\<close>

definition is_trigger :: "string set \<Rightarrow> string set \<Rightarrow> string \<Rightarrow> bool" where
  "is_trigger root_triggers dir_triggers filepath =
     (filepath \<in> root_triggers \<or> (\<exists>trigger \<in> dir_triggers. startswith filepath trigger))"

subsection \<open>Paths\<close>

text \<open>
  A \<^verbatim>\<open>pathlib.Path\<close> is the list of its \<^verbatim>\<open>parts\<close>, the anchor first.
  \<^verbatim>\<open>Path.resolve\<close> reads the file system (the working directory, symbolic links), so
  the functions below take it as a parameter.
\<close>

type_synonym Path = "string list"

text \<open>
  \<^verbatim>\<open>self.relative_to(other)\<close>: the parts of \<^verbatim>\<open>self\<close> after those of \<^verbatim>\<open>other\<close>;
  \<^const>\<open>None\<close> stands for the \<^verbatim>\<open>ValueError\<close> raised when \<^verbatim>\<open>other\<close> does not
  lead to \<^verbatim>\<open>self\<close>.
\<close>

fun relative_to :: "Path \<Rightarrow> Path \<Rightarrow> Path option" where
  "relative_to parts [] = Some parts"
| "relative_to [] (q # other) = None"
| "relative_to (p # parts) (q # other) = (if p = q then relative_to parts other else None)"

text \<open>\<^verbatim>\<open>sep.join(parts)\<close>.\<close>

fun join :: "string \<Rightarrow> string list \<Rightarrow> string" where
  "join sep [] = []"
| "join sep [x] = x"
| "join sep (x # y # ys) = x @ sep @ join sep (y # ys)"

text \<open>
  \<^verbatim>\<open>str\<close> of a relative POSIX path: its parts joined by a slash, a dot when it has
  none.
\<close>

definition str_of_path :: "Path \<Rightarrow> string" where
  "str_of_path parts = (if parts = [] then ''.'' else join ''/'' parts)"

subsection \<open>\<^verbatim>\<open>relativize_to_workspace\<close>\<close>

text \<open>The loop of lines 71 to 75, with the list \<^verbatim>\<open>result\<close> that it appends to.\<close>

fun relativize_loop :: "string \<Rightarrow> string list \<Rightarrow> string list \<Rightarrow> string list" where
  "relativize_loop prefix' [] result = result"
| "relativize_loop prefix' (f # changed_files) result =
     (let prefix_with_slash = prefix' @ ''/'' in
      if startswith f prefix_with_slash
      then relativize_loop prefix' changed_files (result @ [drop (length prefix_with_slash) f])
      else if f = prefix' then relativize_loop prefix' changed_files (result @ [''.''])
      else relativize_loop prefix' changed_files result)"

definition relativize_to_workspace ::
  "(Path \<Rightarrow> Path) \<Rightarrow> string list \<Rightarrow> Path \<Rightarrow> Path \<Rightarrow> string list" where
  "relativize_to_workspace resolve changed_files git_root workspace_root =
     (let workspace_root = resolve workspace_root;
          git_root = resolve git_root
      in if workspace_root = git_root then changed_files
         else (case relative_to workspace_root git_root of
                 None \<Rightarrow> []
               | Some rel \<Rightarrow> relativize_loop (str_of_path rel) changed_files []))"

subsection \<open>\<^verbatim>\<open>get_changed_files\<close>\<close>

text \<open>
  \<^verbatim>\<open>sub in s\<close> on strings: \<^verbatim>\<open>sub\<close> occurs in \<^verbatim>\<open>s\<close> as a contiguous run.
\<close>

fun contains :: "string \<Rightarrow> string \<Rightarrow> bool" where
  "contains [] sub = (sub = [])"
| "contains (c # s) sub = (startswith (c # s) sub \<or> contains s sub)"

text \<open>
  \<^verbatim>\<open>str.isspace\<close> on one character, for the code points below 256: the controls
  9 to 13 and 28 to 31, the space, and the code points 133 and 160.
\<close>

definition isspace :: "char \<Rightarrow> bool" where
  "isspace c = (c \<in> {CHR 0x09, CHR 0x0A, CHR 0x0B, CHR 0x0C, CHR 0x0D, CHR 0x1C, CHR 0x1D,
                     CHR 0x1E, CHR 0x1F, CHR '' '', CHR 0x85, CHR 0xA0})"

text \<open>\<^verbatim>\<open>s.strip()\<close>: white space is removed at both ends.\<close>

definition strip :: "string \<Rightarrow> string" where
  "strip s = rev (dropWhile isspace (rev (dropWhile isspace s)))"

text \<open>
  \<^verbatim>\<open>s.splitlines()\<close>. The line boundaries below code point 256 are the code points
  10 to 13, 28 to 30 and 133; a carriage return followed by a line feed is one boundary.
  A boundary at the end of the string does not open a further line.
\<close>

definition is_linebreak :: "char \<Rightarrow> bool" where
  "is_linebreak c = (c \<in> {CHR 0x0A, CHR 0x0B, CHR 0x0C, CHR 0x0D, CHR 0x1C, CHR 0x1D,
                          CHR 0x1E, CHR 0x85})"

fun splitlines_from :: "string \<Rightarrow> string \<Rightarrow> string list" where
  "splitlines_from line [] = (if line = [] then [] else [line])"
| "splitlines_from line [c] = (if is_linebreak c then [line] else [line @ [c]])"
| "splitlines_from line (c # d # s) =
     (if c = CHR 0x0D \<and> d = CHR 0x0A then line # splitlines_from [] s
      else if is_linebreak c then line # splitlines_from [] (d # s)
      else splitlines_from (line @ [c]) (d # s))"

definition splitlines :: "string \<Rightarrow> string list" where
  "splitlines s = splitlines_from [] s"

text \<open>
  What \<^verbatim>\<open>subprocess.run\<close> returns with \<^verbatim>\<open>capture_output=True, text=True\<close>, and the
  two exceptions that \<^verbatim>\<open>get_changed_files\<close> raises, each with its message.
\<close>

record CompletedProcess =
  returncode :: int
  stdout :: string
  stderr :: string

datatype error = ValueError string | RuntimeError string

text \<open>
  Running the tool is a parameter \<^verbatim>\<open>run\<close>, from the argument list and the working
  directory to the completed process.
\<close>

definition get_changed_files ::
  "(string list \<Rightarrow> Path option \<Rightarrow> CompletedProcess) \<Rightarrow> string \<Rightarrow> Path option \<Rightarrow>
   error + string list" where
  "get_changed_files run base_ref repo_root =
     (let result = run [''git'', ''diff'', ''--name-only'', base_ref @ ''...HEAD''] repo_root
      in if returncode result \<noteq> 0
         then (let stderr' = strip (stderr result)
               in if contains stderr' ''unknown revision'' \<or>
                     contains stderr' ''not a git repository''
                  then Inl (ValueError
                         (''Could not resolve ref '' @ [CHR 0x27] @ base_ref @ [CHR 0x27] @ ''. '' @
                          ''Does the branch/ref exist? '' @
                          ''Try '' @ [CHR 0x27] @ ''git fetch'' @ [CHR 0x27] @
                          '' or use --base with a valid ref.''))
                  else Inl (RuntimeError (''git diff failed: '' @ stderr')))
         else Inr (filter (\<lambda>f. f \<noteq> []) (splitlines (strip (stdout result)))))"

text \<open>
  For stating properties: a runner that returns a given completed process whatever it
  is asked to run; the text that a tool prints when it writes each line of a list
  followed by a line feed; and a line as the diff prints a path, free of line
  boundaries and with no white space at either end.
\<close>

definition fake_run :: "CompletedProcess \<Rightarrow> string list \<Rightarrow> Path option \<Rightarrow> CompletedProcess" where
  "fake_run r args cwd = r"

definition printed_lines :: "string list \<Rightarrow> string" where
  "printed_lines ls = concat (map (\<lambda>l. l @ [CHR 0x0A]) ls)"

definition plain_line :: "string \<Rightarrow> bool" where
  "plain_line l =
     ((\<forall>c \<in> set l. \<not> is_linebreak c) \<and> (l \<noteq> [] \<longrightarrow> \<not> isspace (hd l) \<and> \<not> isspace (last l)))"

section \<open>Properties of \<^verbatim>\<open>map_files_to_packages\<close>\<close>

lemmas map_eval =
  map_files_to_packages_def sorted_packages_def values_of_def startswith_def
  root_triggers_of_def dir_triggers_of_def is_trigger_def
  DEFAULT_ROOT_TRIGGERS_def DEFAULT_DIR_TRIGGERS_def

subsection \<open>The loops in closed form\<close>

lemma startswith_prefix: "startswith s p \<longleftrightarrow> prefix p s"
  unfolding startswith_def
  by (metis prefix_def append_eq_conv_conj take_is_prefix)

lemma scan_files_eq:
  "scan_files rt dt pkgs fs st =
     (fst st \<union> {n. \<exists>f \<in> set fs. \<not> is_trigger rt dt f \<and> match_package pkgs f = Some n},
      snd st \<or> (\<exists>f \<in> set fs. is_trigger rt dt f))"
proof (induction fs arbitrary: st)
  case Nil
  then show ?case by simp
next
  case (Cons f fs)
  obtain dc ta where st: "st = (dc, ta)" by (cases st)
  show ?case
    unfolding st
    by (auto simp: Cons.IH is_trigger_def split: option.splits)
qed

lemma map_files_eq:
  "map_files_to_packages files pkgs rt dt =
     ({n. \<exists>f \<in> set files. \<not> is_trigger (root_triggers_of rt) (dir_triggers_of dt) f \<and>
            match_package (sorted_packages pkgs) f = Some n},
      \<exists>f \<in> set files. is_trigger (root_triggers_of rt) (dir_triggers_of dt) f)"
  by (simp add: map_files_to_packages_def scan_files_eq)

lemma match_package_find:
  "match_package pkgs f =
     map_option name (find (\<lambda>p. startswith f (source_path p @ ''/''))
        (filter (\<lambda>p. source_path p \<noteq> ''.'') pkgs))"
  by (induction pkgs) auto

lemma match_package_filter:
  "match_package (filter (\<lambda>p. source_path p \<noteq> ''.'') pkgs) f = match_package pkgs f"
  by (induction pkgs) auto

lemma match_package_SomeD:
  "match_package pkgs f = Some n \<Longrightarrow>
     \<exists>p \<in> set pkgs. name p = n \<and> source_path p \<noteq> ''.'' \<and> startswith f (source_path p @ ''/'')"
  by (induction pkgs) (auto split: if_splits)

lemma sorted_packages_desc:
  "sorted_wrt (\<lambda>p q. length (source_path q) \<le> length (source_path p)) (sorted_packages pkgs)"
proof -
  have "sorted (map (\<lambda>p. - int (length (source_path p))) (sorted_packages pkgs))"
    unfolding sorted_packages_def by (rule sorted_sort_key)
  then show ?thesis
    by (simp add: sorted_map)
qed

lemma set_sorted_packages: "set (sorted_packages pkgs) = set (values_of pkgs)"
  by (simp add: sorted_packages_def)

lemma match_package_longest:
  "sorted_wrt (\<lambda>p q. length (source_path q) \<le> length (source_path p)) pkgs \<Longrightarrow>
   match_package pkgs f = Some n \<Longrightarrow>
   \<exists>p \<in> set pkgs. name p = n \<and> source_path p \<noteq> ''.'' \<and>
      startswith f (source_path p @ ''/'') \<and>
      (\<forall>q \<in> set pkgs. source_path q \<noteq> ''.'' \<and> startswith f (source_path q @ ''/'') \<longrightarrow>
         length (source_path q) \<le> length (source_path p))"
proof (induction pkgs)
  case Nil
  then show ?case by simp
next
  case (Cons a pkgs)
  then show ?case
    by (fastforce split: if_splits)
qed

lemma sorted_packages_filter:
  "sorted_packages (filter (\<lambda>(k, p). P p) pkgs) = filter P (sorted_packages pkgs)"
proof -
  have "values_of (filter (\<lambda>(k, p). P p) pkgs) = filter P (values_of pkgs)"
    unfolding values_of_def by (induction pkgs) auto
  then show ?thesis
    by (simp add: sorted_packages_def filter_sort)
qed

subsection \<open>Attribution\<close>

text \<open>
  C1. Longest-prefix precedence. Let the candidates be the packages, sorted as the code
  sorts them, whose \<^verbatim>\<open>source_path\<close> is not \<^verbatim>\<open>.\<close>: they are all such packages of
  the registry, in order of descending \<^verbatim>\<open>source_path\<close> length, and the inner loop
  yields the name of the first candidate whose \<^verbatim>\<open>source_path\<close> followed by a slash
  is a prefix of the file path. The package so chosen has a \<^verbatim>\<open>source_path\<close> at
  least as long as that of every other matching package. A single file that no trigger
  matches contributes exactly this name, a file that a trigger matches contributes
  nothing, so one file contributes at most one name; and the direct set of a run is the
  union of what its files contribute one by one. With the packages \<^verbatim>\<open>a\<close> at
  \<^verbatim>\<open>pkg/a\<close> and \<^verbatim>\<open>a/sub\<close> at \<^verbatim>\<open>pkg/a/sub\<close>, the file \<^verbatim>\<open>pkg/a/sub/file.py\<close>
  is attributed to \<^verbatim>\<open>a/sub\<close> alone.
\<close>

theorem longest_prefix_precedence:
  "(let candidates = filter (\<lambda>p. source_path p \<noteq> ''.'') (sorted_packages packages) in
      set candidates = {p \<in> set (values_of packages). source_path p \<noteq> ''.''} \<and>
      sorted_wrt (\<lambda>p q. length (source_path q) \<le> length (source_path p)) candidates \<and>
      match_package (sorted_packages packages) filepath =
        map_option name (find (\<lambda>p. startswith filepath (source_path p @ ''/'')) candidates)) \<and>
   (\<forall>n. match_package (sorted_packages packages) filepath = Some n \<longrightarrow>
      (\<exists>p \<in> set (values_of packages). name p = n \<and> source_path p \<noteq> ''.'' \<and>
         startswith filepath (source_path p @ ''/'') \<and>
         (\<forall>q \<in> set (values_of packages).
            source_path q \<noteq> ''.'' \<and> startswith filepath (source_path q @ ''/'') \<longrightarrow>
            length (source_path q) \<le> length (source_path p)))) \<and>
   fst (map_files_to_packages [filepath] packages rt dt) =
     (if is_trigger (root_triggers_of rt) (dir_triggers_of dt) filepath then {}
      else set_option (match_package (sorted_packages packages) filepath)) \<and>
   card (fst (map_files_to_packages [filepath] packages rt dt)) \<le> 1 \<and>
   fst (map_files_to_packages files packages rt dt) =
     (\<Union>f \<in> set files. fst (map_files_to_packages [f] packages rt dt)) \<and>
   map_files_to_packages [''pkg/a/sub/file.py'']
     [(''a'', \<lparr>name = ''a'', source_path = ''pkg/a''\<rparr>),
      (''a/sub'', \<lparr>name = ''a/sub'', source_path = ''pkg/a/sub''\<rparr>)] None None
     = ({''a/sub''}, False)"
proof -
  let ?sp = "sorted_packages packages"
  let ?c = "filter (\<lambda>p. source_path p \<noteq> ''.'') ?sp"
  have a: "set ?c = {p \<in> set (values_of packages). source_path p \<noteq> ''.''}"
    by (auto simp: set_sorted_packages)
  have b: "sorted_wrt (\<lambda>p q. length (source_path q) \<le> length (source_path p)) ?c"
    by (rule sorted_wrt_filter [OF sorted_packages_desc])
  have c: "match_package ?sp filepath =
      map_option name (find (\<lambda>p. startswith filepath (source_path p @ ''/'')) ?c)"
    by (rule match_package_find)
  have d: "\<forall>n. match_package ?sp filepath = Some n \<longrightarrow>
      (\<exists>p \<in> set (values_of packages). name p = n \<and> source_path p \<noteq> ''.'' \<and>
         startswith filepath (source_path p @ ''/'') \<and>
         (\<forall>q \<in> set (values_of packages).
            source_path q \<noteq> ''.'' \<and> startswith filepath (source_path q @ ''/'') \<longrightarrow>
            length (source_path q) \<le> length (source_path p)))"
    using match_package_longest [OF sorted_packages_desc, of packages filepath]
    by (simp add: set_sorted_packages)
  have e: "fst (map_files_to_packages [filepath] packages rt dt) =
     (if is_trigger (root_triggers_of rt) (dir_triggers_of dt) filepath then {}
      else set_option (match_package ?sp filepath))"
    by (auto simp: map_files_eq)
  have f: "card (fst (map_files_to_packages [filepath] packages rt dt)) \<le> 1"
    unfolding e by (cases "match_package ?sp filepath") auto
  have g: "fst (map_files_to_packages files packages rt dt) =
     (\<Union>f \<in> set files. fst (map_files_to_packages [f] packages rt dt))"
    by (auto simp: map_files_eq)
  have h: "map_files_to_packages [''pkg/a/sub/file.py'']
     [(''a'', \<lparr>name = ''a'', source_path = ''pkg/a''\<rparr>),
      (''a/sub'', \<lparr>name = ''a/sub'', source_path = ''pkg/a/sub''\<rparr>)] None None
     = ({''a/sub''}, False)"
    by (simp add: map_eval)
  from a b c d e f g h show ?thesis
    unfolding Let_def by blast
qed

text \<open>
  The theorem at the registry of the example with a virtual root package added: the
  file is attributed to \<^verbatim>\<open>a/sub\<close>, whose path is the longest that matches.
\<close>

theorem longest_prefix_precedence_witness:
  "match_package
     (sorted_packages
        [(''root'', \<lparr>name = ''root'', source_path = ''.''\<rparr>),
         (''a'', \<lparr>name = ''a'', source_path = ''pkg/a''\<rparr>),
         (''a/sub'', \<lparr>name = ''a/sub'', source_path = ''pkg/a/sub''\<rparr>)])
     ''pkg/a/sub/file.py'' = Some ''a/sub'' \<and>
   (\<exists>p \<in> set (values_of
        [(''root'', \<lparr>name = ''root'', source_path = ''.''\<rparr>),
         (''a'', \<lparr>name = ''a'', source_path = ''pkg/a''\<rparr>),
         (''a/sub'', \<lparr>name = ''a/sub'', source_path = ''pkg/a/sub''\<rparr>)]).
      name p = ''a/sub'' \<and> source_path p \<noteq> ''.'' \<and>
      startswith ''pkg/a/sub/file.py'' (source_path p @ ''/'') \<and>
      (\<forall>q \<in> set (values_of
           [(''root'', \<lparr>name = ''root'', source_path = ''.''\<rparr>),
            (''a'', \<lparr>name = ''a'', source_path = ''pkg/a''\<rparr>),
            (''a/sub'', \<lparr>name = ''a/sub'', source_path = ''pkg/a/sub''\<rparr>)]).
         source_path q \<noteq> ''.'' \<and> startswith ''pkg/a/sub/file.py'' (source_path q @ ''/'') \<longrightarrow>
         length (source_path q) \<le> length (source_path p)))"
proof -
  let ?P = "[(''root'', \<lparr>name = ''root'', source_path = ''.''\<rparr>),
         (''a'', \<lparr>name = ''a'', source_path = ''pkg/a''\<rparr>),
         (''a/sub'', \<lparr>name = ''a/sub'', source_path = ''pkg/a/sub''\<rparr>)]"
  have m: "match_package (sorted_packages ?P) ''pkg/a/sub/file.py'' = Some ''a/sub''"
    by (simp add: map_eval)
  note t = longest_prefix_precedence
    [where packages = ?P and filepath = "''pkg/a/sub/file.py''" and rt = None and dt = None
       and files = "[]"]
  show ?thesis
    by (rule conjI [OF m t [THEN conjunct2, THEN conjunct1, rule_format, OF m]])
qed

text \<open>
  C10. Soundness of the directly-changed set: every name in it is the name of a package
  of the registry whose \<^verbatim>\<open>source_path\<close> is not \<^verbatim>\<open>.\<close> and, followed by a slash, is
  a prefix of some changed file. With no changed file the result is the empty set and
  \<^verbatim>\<open>test_all\<close> false.
\<close>

theorem directly_changed_sound:
  "(\<forall>n \<in> fst (map_files_to_packages files packages rt dt).
      \<exists>p \<in> set (values_of packages). name p = n \<and> source_path p \<noteq> ''.'' \<and>
        (\<exists>f \<in> set files. startswith f (source_path p @ ''/''))) \<and>
   map_files_to_packages [] packages rt dt = ({}, False)"
proof
  show "\<forall>n \<in> fst (map_files_to_packages files packages rt dt).
      \<exists>p \<in> set (values_of packages). name p = n \<and> source_path p \<noteq> ''.'' \<and>
        (\<exists>f \<in> set files. startswith f (source_path p @ ''/''))"
    by (auto simp: map_files_eq set_sorted_packages dest!: match_package_SomeD)
  show "map_files_to_packages [] packages rt dt = ({}, False)"
    by (simp add: map_files_to_packages_def)
qed

theorem directly_changed_sound_witness:
  "''core'' \<in> fst (map_files_to_packages [''README.md'', ''packages/core/src/x.py'']
       [(''root'', \<lparr>name = ''root'', source_path = ''.''\<rparr>),
        (''core'', \<lparr>name = ''core'', source_path = ''packages/core''\<rparr>)] None None) \<and>
   (\<exists>p \<in> set (values_of
        [(''root'', \<lparr>name = ''root'', source_path = ''.''\<rparr>),
         (''core'', \<lparr>name = ''core'', source_path = ''packages/core''\<rparr>)]).
      name p = ''core'' \<and> source_path p \<noteq> ''.'' \<and>
      (\<exists>f \<in> set [''README.md'', ''packages/core/src/x.py''].
         startswith f (source_path p @ ''/'')))"
proof -
  have m: "''core'' \<in> fst (map_files_to_packages [''README.md'', ''packages/core/src/x.py'']
       [(''root'', \<lparr>name = ''root'', source_path = ''.''\<rparr>),
        (''core'', \<lparr>name = ''core'', source_path = ''packages/core''\<rparr>)] None None)"
    by (simp add: map_eval)
  show ?thesis
    by (rule conjI [OF m directly_changed_sound [THEN conjunct1, rule_format, OF m]])
qed

text \<open>
  C7. The virtual root package never receives direct attributions. The result of a run
  is the same when every package whose \<^verbatim>\<open>source_path\<close> is \<^verbatim>\<open>.\<close> is taken out
  of the registry, so no such package is ever matched against a file; and a name that
  only such packages carry is never in the directly-changed set.
\<close>

theorem virtual_root_never_attributed:
  "map_files_to_packages files packages rt dt =
     map_files_to_packages files (filter (\<lambda>(k, p). source_path p \<noteq> ''.'') packages) rt dt \<and>
   ((\<forall>p \<in> set (values_of packages). name p = n \<longrightarrow> source_path p = ''.'') \<longrightarrow>
      n \<notin> fst (map_files_to_packages files packages rt dt))"
proof
  show "map_files_to_packages files packages rt dt =
     map_files_to_packages files (filter (\<lambda>(k, p). source_path p \<noteq> ''.'') packages) rt dt"
    by (simp add: map_files_eq sorted_packages_filter match_package_filter)
  show "(\<forall>p \<in> set (values_of packages). name p = n \<longrightarrow> source_path p = ''.'') \<longrightarrow>
      n \<notin> fst (map_files_to_packages files packages rt dt)"
    by (auto simp: map_files_eq set_sorted_packages dest!: match_package_SomeD)
qed

theorem virtual_root_never_attributed_witness:
  "''root'' \<notin> fst (map_files_to_packages [''README.md'', ''packages/core/src/x.py'']
       [(''root'', \<lparr>name = ''root'', source_path = ''.''\<rparr>),
        (''core'', \<lparr>name = ''core'', source_path = ''packages/core''\<rparr>)] None None)"
proof -
  have h: "\<forall>p \<in> set (values_of
        [(''root'', \<lparr>name = ''root'', source_path = ''.''\<rparr>),
         (''core'', \<lparr>name = ''core'', source_path = ''packages/core''\<rparr>)]).
      name p = ''root'' \<longrightarrow> source_path p = ''.''"
    by (simp add: values_of_def)
  show ?thesis
    by (rule virtual_root_never_attributed [THEN conjunct2, THEN mp, OF h])
qed

subsection \<open>Triggers\<close>

text \<open>
  C2. Trigger exclusivity. A changed file that is a root trigger, or that starts with a
  directory trigger, sets \<^verbatim>\<open>test_all\<close> and adds no name: the run has
  \<^verbatim>\<open>test_all\<close> true and the direct set that it has without this file, whatever
  package paths the file starts with, and the files after it are scanned as before. In
  the loop, such a file leaves \<^verbatim>\<open>directly_changed\<close> as it is, sets \<^verbatim>\<open>test_all\<close>
  and goes on with the next file. The loop tests the root triggers first; a file that
  matches a trigger of either kind has the same effect.
\<close>

theorem trigger_exclusivity:
  "is_trigger (root_triggers_of rt) (dir_triggers_of dt) filepath \<Longrightarrow>
   map_files_to_packages (before @ filepath # after) packages rt dt =
     (fst (map_files_to_packages (before @ after) packages rt dt), True) \<and>
   scan_files (root_triggers_of rt) (dir_triggers_of dt) pkgs (filepath # after)
       (directly_changed, test_all) =
     scan_files (root_triggers_of rt) (dir_triggers_of dt) pkgs after (directly_changed, True)"
  by (auto simp: map_files_eq is_trigger_def)

text \<open>
  The theorem at a root trigger that lies inside the package \<^verbatim>\<open>core\<close>: only
  \<^verbatim>\<open>web\<close>, changed by the files before and after it, is in the direct set.
\<close>

theorem trigger_exclusivity_witness:
  "is_trigger (root_triggers_of (Some {''packages/core/pyproject.toml''})) (dir_triggers_of None)
     ''packages/core/pyproject.toml'' \<and>
   map_files_to_packages
     ([''packages/web/a.py''] @ ''packages/core/pyproject.toml'' # [''packages/web/b.py''])
     [(''core'', \<lparr>name = ''core'', source_path = ''packages/core''\<rparr>),
      (''web'', \<lparr>name = ''web'', source_path = ''packages/web''\<rparr>)]
     (Some {''packages/core/pyproject.toml''}) None = ({''web''}, True)"
proof -
  have h: "is_trigger (root_triggers_of (Some {''packages/core/pyproject.toml''}))
     (dir_triggers_of None) ''packages/core/pyproject.toml''"
    by (simp add: map_eval)
  have v: "fst (map_files_to_packages ([''packages/web/a.py''] @ [''packages/web/b.py''])
     [(''core'', \<lparr>name = ''core'', source_path = ''packages/core''\<rparr>),
      (''web'', \<lparr>name = ''web'', source_path = ''packages/web''\<rparr>)]
     (Some {''packages/core/pyproject.toml''}) None) = {''web''}"
    by (simp add: map_eval)
  show ?thesis
    using h trigger_exclusivity [OF h, THEN conjunct1, of "[''packages/web/a.py'']"
        "[''packages/web/b.py'']"
        "[(''core'', \<lparr>name = ''core'', source_path = ''packages/core''\<rparr>),
          (''web'', \<lparr>name = ''web'', source_path = ''packages/web''\<rparr>)]"]
    by (simp only: v simp_thms)
qed

text \<open>
  C9. A directory trigger that is the empty string swallows everything: every path
  starts with the empty string, so with at least one changed file the result is
  \<^verbatim>\<open>test_all\<close> true and an empty directly-changed set.
\<close>

theorem empty_dir_trigger_swallows_everything:
  "'''' \<in> dir_triggers \<Longrightarrow> files \<noteq> [] \<Longrightarrow>
   map_files_to_packages files packages rt (Some dir_triggers) = ({}, True)"
proof -
  assume e: "'''' \<in> dir_triggers" and ne: "files \<noteq> []"
  have "startswith f []" for f
    by (simp add: startswith_def)
  with e have "is_trigger (root_triggers_of rt) (dir_triggers_of (Some dir_triggers)) f" for f
    unfolding is_trigger_def dir_triggers_of_def by auto
  moreover from ne obtain f where "f \<in> set files"
    by (cases files) auto
  ultimately show ?thesis
    by (auto simp: map_files_eq)
qed

theorem empty_dir_trigger_swallows_everything_witness:
  "'''' \<in> {'''', ''.github/''} \<and> [''packages/core/src/x.py''] \<noteq> [] \<and>
   map_files_to_packages [''packages/core/src/x.py'']
     [(''core'', \<lparr>name = ''core'', source_path = ''packages/core''\<rparr>)]
     None (Some {'''', ''.github/''}) = ({}, True)"
proof -
  have e: "'''' \<in> {'''', ''.github/''}" by simp
  have ne: "[''packages/core/src/x.py''] \<noteq> []" by simp
  show ?thesis
    using e ne empty_dir_trigger_swallows_everything [OF e ne] by blast
qed

text \<open>
  C8. Trigger-set defaults. An omitted root trigger set stands for
  \<^verbatim>\<open>pyproject.toml\<close> and \<^verbatim>\<open>uv.lock\<close>, an omitted directory trigger set for
  \<^verbatim>\<open>.github/\<close>, and a set that is passed is used as it is. So with both sets
  omitted \<^verbatim>\<open>test_all\<close> is set exactly when some changed file is
  \<^verbatim>\<open>pyproject.toml\<close> or \<^verbatim>\<open>uv.lock\<close> or starts with \<^verbatim>\<open>.github/\<close>, and with
  both sets passed exactly when some changed file is in the root set or starts with a
  member of the directory set. An explicit empty set switches its category off: with
  no root triggers \<^verbatim>\<open>test_all\<close> is set by the directory triggers alone, with no
  directory triggers by the root triggers alone, and with both sets empty it is never
  set.
\<close>

theorem trigger_set_defaults:
  "map_files_to_packages files packages None dt =
     map_files_to_packages files packages (Some {''pyproject.toml'', ''uv.lock''}) dt \<and>
   map_files_to_packages files packages rt None =
     map_files_to_packages files packages rt (Some {''.github/''}) \<and>
   snd (map_files_to_packages files packages (Some {}) dt) =
     (\<exists>f \<in> set files. \<exists>t \<in> dir_triggers_of dt. startswith f t) \<and>
   snd (map_files_to_packages files packages rt (Some {})) =
     (\<exists>f \<in> set files. f \<in> root_triggers_of rt) \<and>
   snd (map_files_to_packages files packages (Some {}) (Some {})) = False \<and>
   root_triggers_of None = {''pyproject.toml'', ''uv.lock''} \<and>
   dir_triggers_of None = {''.github/''} \<and>
   root_triggers_of (Some rs) = rs \<and>
   dir_triggers_of (Some ds) = ds \<and>
   map_files_to_packages files packages (Some rs) (Some ds) =
     ({n. \<exists>f \<in> set files. f \<notin> rs \<and> \<not> (\<exists>t \<in> ds. startswith f t) \<and>
            match_package (sorted_packages packages) f = Some n},
      \<exists>f \<in> set files. f \<in> rs \<or> (\<exists>t \<in> ds. startswith f t)) \<and>
   snd (map_files_to_packages files packages None None) =
     (\<exists>f \<in> set files.
        f = ''pyproject.toml'' \<or> f = ''uv.lock'' \<or> startswith f ''.github/'') \<and>
   snd (map_files_to_packages files packages None (Some ds)) =
     (\<exists>f \<in> set files.
        f = ''pyproject.toml'' \<or> f = ''uv.lock'' \<or> (\<exists>t \<in> ds. startswith f t)) \<and>
   snd (map_files_to_packages files packages (Some rs) None) =
     (\<exists>f \<in> set files. f \<in> rs \<or> startswith f ''.github/'') \<and>
   snd (map_files_to_packages files packages None (Some {})) =
     (\<exists>f \<in> set files. f = ''pyproject.toml'' \<or> f = ''uv.lock'') \<and>
   snd (map_files_to_packages files packages (Some {}) None) =
     (\<exists>f \<in> set files. startswith f ''.github/'')"
proof -
  have r: "root_triggers_of None = {''pyproject.toml'', ''uv.lock''}"
    "root_triggers_of (Some rs) = rs" "root_triggers_of (Some {}) = {}"
    by (simp_all add: root_triggers_of_def DEFAULT_ROOT_TRIGGERS_def)
  have d: "dir_triggers_of None = {''.github/''}"
    "dir_triggers_of (Some ds) = ds" "dir_triggers_of (Some {}) = {}"
    by (simp_all add: dir_triggers_of_def DEFAULT_DIR_TRIGGERS_def)
  have r': "root_triggers_of (Some {''pyproject.toml'', ''uv.lock''}) =
      {''pyproject.toml'', ''uv.lock''}"
    by (simp add: root_triggers_of_def)
  have d': "dir_triggers_of (Some {''.github/''}) = {''.github/''}"
    by (simp add: dir_triggers_of_def)
  have a: "map_files_to_packages files packages None dt =
      map_files_to_packages files packages (Some {''pyproject.toml'', ''uv.lock''}) dt"
    by (simp only: map_files_to_packages_def r r')
  have b: "map_files_to_packages files packages rt None =
      map_files_to_packages files packages rt (Some {''.github/''})"
    by (simp only: map_files_to_packages_def d d')
  have c: "snd (map_files_to_packages files packages (Some {}) dt) =
      (\<exists>f \<in> set files. \<exists>t \<in> dir_triggers_of dt. startswith f t)"
    by (simp add: map_files_eq is_trigger_def r)
  have e: "snd (map_files_to_packages files packages rt (Some {})) =
      (\<exists>f \<in> set files. f \<in> root_triggers_of rt)"
    by (simp add: map_files_eq is_trigger_def d)
  have f: "snd (map_files_to_packages files packages (Some {}) (Some {})) = False"
    by (simp add: map_files_eq is_trigger_def r d)
  have g: "map_files_to_packages files packages (Some rs) (Some ds) =
     ({n. \<exists>f \<in> set files. f \<notin> rs \<and> \<not> (\<exists>t \<in> ds. startswith f t) \<and>
            match_package (sorted_packages packages) f = Some n},
      \<exists>f \<in> set files. f \<in> rs \<or> (\<exists>t \<in> ds. startswith f t))"
    by (simp add: map_files_eq is_trigger_def r d)
  have h: "snd (map_files_to_packages files packages None None) =
     (\<exists>f \<in> set files.
        f = ''pyproject.toml'' \<or> f = ''uv.lock'' \<or> startswith f ''.github/'')"
    by (simp add: map_files_eq is_trigger_def r d disj_assoc)
  have i: "snd (map_files_to_packages files packages None (Some ds)) =
     (\<exists>f \<in> set files.
        f = ''pyproject.toml'' \<or> f = ''uv.lock'' \<or> (\<exists>t \<in> ds. startswith f t))"
    by (simp add: map_files_eq is_trigger_def r d disj_assoc)
  have j: "snd (map_files_to_packages files packages (Some rs) None) =
     (\<exists>f \<in> set files. f \<in> rs \<or> startswith f ''.github/'')"
    by (simp add: map_files_eq is_trigger_def r d)
  have k: "snd (map_files_to_packages files packages None (Some {})) =
     (\<exists>f \<in> set files. f = ''pyproject.toml'' \<or> f = ''uv.lock'')"
    by (simp add: map_files_eq is_trigger_def r d)
  have l: "snd (map_files_to_packages files packages (Some {}) None) =
     (\<exists>f \<in> set files. startswith f ''.github/'')"
    by (simp add: map_files_eq is_trigger_def r d)
  from a b c e f r(1) d(1) r(2) d(2) g h i j k l show ?thesis
    by (intro conjI)
qed

text \<open>
  The theorem at runs whose only changed file is \<^verbatim>\<open>.github/workflows/ci.yml\<close> or
  \<^verbatim>\<open>uv.lock\<close>: the omitted sets set \<^verbatim>\<open>test_all\<close>, the empty sets do not.
\<close>

theorem trigger_set_defaults_witness:
  "snd (map_files_to_packages [''.github/workflows/ci.yml''] [] None None) = True \<and>
   snd (map_files_to_packages [''.github/workflows/ci.yml''] [] None (Some {})) = False \<and>
   snd (map_files_to_packages [''uv.lock''] [] None None) = True \<and>
   snd (map_files_to_packages [''uv.lock''] [] (Some {}) None) = False \<and>
   snd (map_files_to_packages [''uv.lock''] [] (Some {}) (Some {})) = False"
proof -
  note t1 = trigger_set_defaults [where files = "[''.github/workflows/ci.yml'']"
      and packages = "[]"]
  note t2 = trigger_set_defaults [where files = "[''uv.lock'']" and packages = "[]"]
  have h1: "snd (map_files_to_packages [''.github/workflows/ci.yml''] [] None None) = True"
    using t1 by (simp add: startswith_def)
  have k1: "snd (map_files_to_packages [''.github/workflows/ci.yml''] [] None (Some {})) = False"
    using t1 by simp
  have h2: "snd (map_files_to_packages [''uv.lock''] [] None None) = True"
    using t2 by simp
  have l2: "snd (map_files_to_packages [''uv.lock''] [] (Some {}) None) = False"
    using t2 by (simp add: startswith_def)
  have f2: "snd (map_files_to_packages [''uv.lock''] [] (Some {}) (Some {})) = False"
    using t2 by simp
  from h1 k1 h2 l2 f2 show ?thesis by (intro conjI)
qed

subsection \<open>A scenario\<close>

text \<open>
  C6. With changed files \<^verbatim>\<open>pyproject.toml\<close>, \<^verbatim>\<open>packages/core/src/x.py\<close> and
  \<^verbatim>\<open>packages/web/README.md\<close>, the packages \<^verbatim>\<open>core\<close> at \<^verbatim>\<open>packages/core\<close> and
  \<^verbatim>\<open>web\<close> at \<^verbatim>\<open>packages/web\<close>, and both trigger sets left at their defaults, the
  result is the direct set of \<^verbatim>\<open>core\<close> and \<^verbatim>\<open>web\<close> with \<^verbatim>\<open>test_all\<close> true.
\<close>

theorem scenario_mixed_triggers_and_attributions:
  "map_files_to_packages
     [''pyproject.toml'', ''packages/core/src/x.py'', ''packages/web/README.md'']
     [(''core'', \<lparr>name = ''core'', source_path = ''packages/core''\<rparr>),
      (''web'', \<lparr>name = ''web'', source_path = ''packages/web''\<rparr>)]
     None None
   = ({''core'', ''web''}, True)"
  by (simp add: map_eval insert_commute)

section \<open>Properties of \<^verbatim>\<open>relativize_to_workspace\<close>\<close>

lemma relativize_loop_acc:
  "relativize_loop p fs res = res @ relativize_loop p fs []"
proof (induction fs arbitrary: res)
  case Nil
  then show ?case by simp
next
  case (Cons f fs)
  show ?case
    using Cons.IH [of "res @ [drop (length (p @ ''/'')) f]"]
      Cons.IH [of "res @ [''.'']"] Cons.IH [of res]
      Cons.IH [of "[drop (length (p @ ''/'')) f]"] Cons.IH [of "[''.'']"]
    by (simp add: Let_def)
qed

lemma relativize_loop_Cons:
  "relativize_loop p (f # fs) [] =
     (if startswith f (p @ ''/'') then drop (length p + 1) f # relativize_loop p fs []
      else if f = p then ''.'' # relativize_loop p fs []
      else relativize_loop p fs [])"
  using relativize_loop_acc [of p fs "[drop (length p + 1) f]"]
    relativize_loop_acc [of p fs "[''.'']"]
  by (simp add: Let_def)

lemma relativize_loop_append:
  "relativize_loop p (xs @ ys) [] = relativize_loop p xs [] @ relativize_loop p ys []"
  by (induction xs) (simp_all add: relativize_loop_Cons del: relativize_loop.simps(2))

lemma startswith_self_slash: "\<not> startswith p (p @ ''/'')"
  by (simp add: startswith_def)

lemma relativize_loop_map_filter:
  "relativize_loop p fs [] =
     map (\<lambda>f. if f = p then ''.'' else drop (length p + 1) f)
       (filter (\<lambda>f. f = p \<or> startswith f (p @ ''/'')) fs)"
  by (induction fs)
    (auto simp add: relativize_loop_Cons startswith_self_slash simp del: relativize_loop.simps(2))

lemma relativize_loop_length: "length (relativize_loop p fs []) \<le> length fs"
  by (simp add: relativize_loop_map_filter le_trans [OF length_filter_le])

lemma startswith_append: "startswith (p @ s) p"
  by (simp add: startswith_def)

lemma relativize_loop_origin:
  "out \<in> set (relativize_loop p fs []) \<Longrightarrow>
     (out = ''.'' \<and> p \<in> set fs) \<or> p @ ''/'' @ out \<in> set fs"
proof -
  assume "out \<in> set (relativize_loop p fs [])"
  then obtain f where f: "f \<in> set fs" "f = p \<or> startswith f (p @ ''/'')"
    and out: "out = (if f = p then ''.'' else drop (length p + 1) f)"
    by (auto simp: relativize_loop_map_filter)
  show ?thesis
  proof (cases "f = p")
    case True
    with f out show ?thesis by simp
  next
    case False
    with f have "startswith f (p @ ''/'')" by simp
    then have "take (length p + 1) f = p @ ''/''"
      by (simp add: startswith_def)
    then have "f = (p @ ''/'') @ drop (length p + 1) f"
      by (metis append_take_drop_id)
    with False out f show ?thesis by simp
  qed
qed

lemma relative_to_Nil: "relative_to a b = Some [] \<longleftrightarrow> a = b"
  by (induction a b rule: relative_to.induct) auto

lemma contains_sublist: "contains s sub \<longleftrightarrow> sublist sub s"
  by (induction s) (simp_all add: sublist_Cons_right startswith_prefix)

lemma relativize_Some:
  "resolve workspace_root \<noteq> resolve git_root \<Longrightarrow>
   relative_to (resolve workspace_root) (resolve git_root) = Some rel \<Longrightarrow>
   relativize_to_workspace resolve fs git_root workspace_root =
     relativize_loop (str_of_path rel) fs []"
  by (simp add: relativize_to_workspace_def)

text \<open>
  C4. The stripping rule. When the two resolved roots are equal the list is returned as
  it is, and the output is never longer than the input. When the workspace root lies
  properly below the repository root, with \<^verbatim>\<open>p\<close> the relative path between them
  (its parts joined by slashes): a file \<^verbatim>\<open>p\<close>, slash, \<^verbatim>\<open>rest\<close> yields \<^verbatim>\<open>rest\<close>
  at its place between the results of the files before and after it, the file \<^verbatim>\<open>p\<close>
  itself yields a dot, and every other file yields nothing.
\<close>

theorem relativize_stripping_rule:
  "(resolve workspace_root = resolve git_root \<longrightarrow>
      relativize_to_workspace resolve changed_files git_root workspace_root = changed_files) \<and>
   length (relativize_to_workspace resolve changed_files git_root workspace_root)
     \<le> length changed_files \<and>
   (resolve workspace_root \<noteq> resolve git_root \<longrightarrow>
     (\<forall>rel. relative_to (resolve workspace_root) (resolve git_root) = Some rel \<longrightarrow>
        (let p = str_of_path rel;
             R = (\<lambda>fs. relativize_to_workspace resolve fs git_root workspace_root)
         in p = join ''/'' rel \<and>
            R (before @ (p @ ''/'' @ rest) # after) = R before @ rest # R after \<and>
            R (before @ p # after) = R before @ ''.'' # R after \<and>
            (f \<noteq> p \<and> \<not> startswith f (p @ ''/'') \<longrightarrow>
               R (before @ f # after) = R before @ R after))))"
proof (intro conjI impI allI)
  show "relativize_to_workspace resolve changed_files git_root workspace_root = changed_files"
    if "resolve workspace_root = resolve git_root"
    using that by (simp add: relativize_to_workspace_def)
  show "length (relativize_to_workspace resolve changed_files git_root workspace_root)
     \<le> length changed_files"
    by (simp add: relativize_to_workspace_def Let_def relativize_loop_length
        split: option.split)
  fix rel
  assume ne: "resolve workspace_root \<noteq> resolve git_root"
    and rel: "relative_to (resolve workspace_root) (resolve git_root) = Some rel"
  from ne rel have "rel \<noteq> []"
    using relative_to_Nil [of "resolve workspace_root" "resolve git_root"] by auto
  then have j: "str_of_path rel = join ''/'' rel"
    by (simp add: str_of_path_def)
  have s: "startswith (str_of_path rel @ ''/'' @ rest) (str_of_path rel @ ''/'')"
    using startswith_append [of "str_of_path rel @ ''/''" rest] by simp
  show "let p = str_of_path rel;
            R = (\<lambda>fs. relativize_to_workspace resolve fs git_root workspace_root)
        in p = join ''/'' rel \<and>
           R (before @ (p @ ''/'' @ rest) # after) = R before @ rest # R after \<and>
           R (before @ p # after) = R before @ ''.'' # R after \<and>
           (f \<noteq> p \<and> \<not> startswith f (p @ ''/'') \<longrightarrow>
              R (before @ f # after) = R before @ R after)"
    unfolding Let_def relativize_Some [of resolve workspace_root git_root, OF ne rel]
    using j s
    by (simp add: relativize_loop_append relativize_loop_Cons startswith_self_slash
        del: relativize_loop.simps(2))
qed

text \<open>
  C3, as amended. When no changed file begins with a slash or contains two slashes in
  a row, no returned path begins with a slash. When the workspace root lies properly
  below the repository root, with \<^verbatim>\<open>p\<close> the relative path between them, the result
  lists, in the order of the input, the files that are \<^verbatim>\<open>p\<close> or start with \<^verbatim>\<open>p\<close>
  and a slash, the first as a dot and the others without their first
  \<^verbatim>\<open>len(p) + 1\<close> characters; so every returned path is a dot that stands for the
  changed file \<^verbatim>\<open>p\<close>, or gives a changed file back when \<^verbatim>\<open>p\<close> and a slash are
  put in front of it. When the roots are equal the list is returned as it is, and when
  the workspace root is not below the repository root the result is empty.
\<close>

theorem relativize_postcondition:
  "((\<forall>f \<in> set changed_files. \<not> startswith f ''/'' \<and> \<not> contains f ''//'') \<longrightarrow>
      (\<forall>out \<in> set (relativize_to_workspace resolve changed_files git_root workspace_root).
         \<not> startswith out ''/'')) \<and>
   (resolve workspace_root = resolve git_root \<longrightarrow>
      relativize_to_workspace resolve changed_files git_root workspace_root = changed_files) \<and>
   (resolve workspace_root \<noteq> resolve git_root \<longrightarrow>
      relative_to (resolve workspace_root) (resolve git_root) = None \<longrightarrow>
      relativize_to_workspace resolve changed_files git_root workspace_root = []) \<and>
   (resolve workspace_root \<noteq> resolve git_root \<longrightarrow>
     (\<forall>rel. relative_to (resolve workspace_root) (resolve git_root) = Some rel \<longrightarrow>
        (let p = str_of_path rel;
             outs = relativize_to_workspace resolve changed_files git_root workspace_root
         in outs = map (\<lambda>f. if f = p then ''.'' else drop (length p + 1) f)
                     (filter (\<lambda>f. f = p \<or> startswith f (p @ ''/'')) changed_files) \<and>
            (\<forall>out \<in> set outs.
               (out = ''.'' \<and> p \<in> set changed_files) \<or>
               p @ ''/'' @ out \<in> set changed_files))))"
proof (intro conjI impI allI ballI)
  show "relativize_to_workspace resolve changed_files git_root workspace_root = changed_files"
    if "resolve workspace_root = resolve git_root"
    using that by (simp add: relativize_to_workspace_def)
  show "relativize_to_workspace resolve changed_files git_root workspace_root = []"
    if "resolve workspace_root \<noteq> resolve git_root"
      "relative_to (resolve workspace_root) (resolve git_root) = None"
    using that by (simp add: relativize_to_workspace_def)
  show "let p = str_of_path rel;
            outs = relativize_to_workspace resolve changed_files git_root workspace_root
        in outs = map (\<lambda>f. if f = p then ''.'' else drop (length p + 1) f)
                    (filter (\<lambda>f. f = p \<or> startswith f (p @ ''/'')) changed_files) \<and>
           (\<forall>out \<in> set outs.
              (out = ''.'' \<and> p \<in> set changed_files) \<or>
              p @ ''/'' @ out \<in> set changed_files)"
    if ne: "resolve workspace_root \<noteq> resolve git_root"
      and rel: "relative_to (resolve workspace_root) (resolve git_root) = Some rel" for rel
    unfolding Let_def relativize_Some [of resolve workspace_root git_root, OF ne rel]
    using relativize_loop_origin [of _ "str_of_path rel" changed_files]
    by (auto simp: relativize_loop_map_filter [symmetric])
next
  fix out
  assume H: "\<forall>f \<in> set changed_files. \<not> startswith f ''/'' \<and> \<not> contains f ''//''"
    and out: "out \<in> set (relativize_to_workspace resolve changed_files git_root workspace_root)"
  show "\<not> startswith out ''/''"
  proof
    assume sl: "startswith out ''/''"
    then obtain out' where out': "out = ''/'' @ out'"
      unfolding startswith_prefix prefix_def by blast
    show False
    proof (cases "resolve workspace_root = resolve git_root")
      case True
      with out have "out \<in> set changed_files"
        by (simp add: relativize_to_workspace_def)
      with H sl show False by blast
    next
      case ne: False
      show False
      proof (cases "relative_to (resolve workspace_root) (resolve git_root)")
        case None
        with ne out show False
          by (simp add: relativize_to_workspace_def)
      next
        case (Some rel)
        let ?p = "str_of_path rel"
        from out have "out \<in> set (relativize_loop ?p changed_files [])"
          unfolding relativize_Some [of resolve workspace_root git_root, OF ne Some] .
        from relativize_loop_origin [OF this] out'
        have "?p @ ''/'' @ out \<in> set changed_files" by auto
        with H have "\<not> sublist ''//'' (?p @ ''/'' @ out)"
          by (auto simp: contains_sublist)
        moreover have "?p @ ''/'' @ out = ?p @ ''//'' @ out'"
          by (simp add: out')
        ultimately show False
          using sublist_appendI [of "''//''" ?p out'] by simp
      qed
    qed
  qed
qed

lemmas relativize_eval =
  relativize_to_workspace_def str_of_path_def startswith_def Let_def

text \<open>
  The claim as first stated fails on a path with two slashes after the prefix, which
  comes back with a leading slash; and a path inside a directory of the workspace that
  has the name of the workspace comes back starting with the prefix again.
\<close>

theorem relativize_postcondition_counterexample:
  "relativize_to_workspace id [''ws//x.py''] [''/'', ''repo''] [''/'', ''repo'', ''ws'']
     = [''/x.py''] \<and>
   startswith ''/x.py'' ''/'' \<and>
   relativize_to_workspace id [''ws/ws/y.py''] [''/'', ''repo''] [''/'', ''repo'', ''ws'']
     = [''ws/y.py''] \<and>
   startswith ''ws/y.py'' (''ws'' @ ''/'')"
  by (simp add: relativize_eval)

theorem relativize_postcondition_witness:
  "relativize_to_workspace id [''ws/a/b.py'', ''README.md'', ''ws'', ''ws/ws/y.py'']
     [''/'', ''repo''] [''/'', ''repo'', ''ws''] = [''a/b.py'', ''.'', ''ws/y.py''] \<and>
   \<not> (\<exists>out \<in> set (relativize_to_workspace id
           [''ws/a/b.py'', ''README.md'', ''ws'', ''ws/ws/y.py'']
           [''/'', ''repo''] [''/'', ''repo'', ''ws'']). startswith out ''/'')"
proof -
  have H: "\<forall>f \<in> set [''ws/a/b.py'', ''README.md'', ''ws'', ''ws/ws/y.py''].
      \<not> startswith f ''/'' \<and> \<not> contains f ''//''"
    by (simp add: startswith_def)
  have v: "relativize_to_workspace id [''ws/a/b.py'', ''README.md'', ''ws'', ''ws/ws/y.py'']
     [''/'', ''repo''] [''/'', ''repo'', ''ws''] = [''a/b.py'', ''.'', ''ws/y.py'']"
    by (simp add: relativize_eval)
  from relativize_postcondition [THEN conjunct1, THEN mp, OF H, of id "[''/'', ''repo'']"
      "[''/'', ''repo'', ''ws'']"]
  have "\<not> (\<exists>out \<in> set (relativize_to_workspace id
           [''ws/a/b.py'', ''README.md'', ''ws'', ''ws/ws/y.py'']
           [''/'', ''repo''] [''/'', ''repo'', ''ws'']). startswith out ''/'')"
    by blast
  with v show ?thesis by blast
qed

theorem relativize_stripping_rule_witness:
  "relativize_to_workspace id [''README.md'', ''ws/a/b.py'', ''ws'']
     [''/'', ''repo''] [''/'', ''repo'', ''ws''] = [''a/b.py'', ''.'']"
proof -
  let ?G = "[''/'', ''repo'']" and ?W = "[''/'', ''repo'', ''ws'']"
  have ne: "id ?W \<noteq> id ?G" by simp
  have rel: "relative_to (id ?W) (id ?G) = Some [''ws'']" by simp
  note t = relativize_stripping_rule [where resolve = id and git_root = ?G
      and workspace_root = ?W and before = "[''README.md'']" and rest = "''a/b.py''"
      and after = "[''ws'']", THEN conjunct2, THEN conjunct2, THEN mp, OF ne, THEN spec,
      THEN mp, OF rel]
  from t have "relativize_to_workspace id ([''README.md''] @ (''ws'' @ ''/'' @ ''a/b.py'') # [''ws''])
       ?G ?W =
     relativize_to_workspace id [''README.md''] ?G ?W @
       ''a/b.py'' # relativize_to_workspace id [''ws''] ?G ?W"
    by (simp add: Let_def str_of_path_def)
  moreover have "relativize_to_workspace id [''README.md''] ?G ?W = []"
    by (simp add: relativize_eval)
  moreover have "relativize_to_workspace id [''ws''] ?G ?W = [''.'']"
    by (simp add: relativize_eval)
  ultimately show ?thesis by simp
qed

section \<open>Properties of \<^verbatim>\<open>get_changed_files\<close>\<close>

subsection \<open>Stripping keeps what the code looks for\<close>

lemma sublist_dropWhile:
  "sub \<noteq> [] \<Longrightarrow> \<not> P (hd sub) \<Longrightarrow> sublist sub (dropWhile P s) \<longleftrightarrow> sublist sub s"
proof (induction s)
  case Nil
  then show ?case by simp
next
  case (Cons c s)
  show ?case
  proof (cases "P c")
    case True
    with Cons.prems have "\<not> prefix sub (c # s)"
      by (cases sub) auto
    with True Cons show ?thesis
      by (simp add: sublist_Cons_right)
  next
    case False
    then show ?thesis by simp
  qed
qed

lemma sublist_strip:
  assumes "sub \<noteq> []" "\<not> isspace (hd sub)" "\<not> isspace (last sub)"
  shows "sublist sub (strip s) \<longleftrightarrow> sublist sub s"
proof -
  have "sublist sub (strip s) \<longleftrightarrow> sublist (rev sub) (dropWhile isspace (rev (dropWhile isspace s)))"
    by (simp add: strip_def sublist_rev_right)
  also have "\<dots> \<longleftrightarrow> sublist (rev sub) (rev (dropWhile isspace s))"
    using assms by (intro sublist_dropWhile) (simp_all add: hd_rev)
  also have "\<dots> \<longleftrightarrow> sublist sub (dropWhile isspace s)"
    by simp
  also have "\<dots> \<longleftrightarrow> sublist sub s"
    using assms by (intro sublist_dropWhile)
  finally show ?thesis .
qed

lemma contains_strip:
  assumes "sub \<noteq> []" "\<not> isspace (hd sub)" "\<not> isspace (last sub)"
  shows "contains (strip s) sub \<longleftrightarrow> contains s sub"
  using sublist_strip [OF assms] by (simp add: contains_sublist)

lemma contains_strip_unknown_revision:
  "contains (strip s) ''unknown revision'' \<longleftrightarrow> contains s ''unknown revision''"
  by (rule contains_strip) (simp_all add: isspace_def)

lemma contains_strip_not_a_git_repository:
  "contains (strip s) ''not a git repository'' \<longleftrightarrow> contains s ''not a git repository''"
  by (rule contains_strip) (simp_all add: isspace_def)

subsection \<open>The lines of a well-formed output\<close>

lemma isspace_LF: "isspace (CHR 0x0A)"
  by (simp add: isspace_def)

lemma is_linebreak_LF: "is_linebreak (CHR 0x0A)"
  by (simp add: is_linebreak_def)

lemma printed_lines_simps:
  "printed_lines [] = []"
  "printed_lines (l # ls) = l @ CHR 0x0A # printed_lines ls"
  "printed_lines (ls @ ms) = printed_lines ls @ printed_lines ms"
  by (simp_all add: printed_lines_def)

lemma dropWhile_isspace_printed_lines:
  "\<forall>l \<in> set ls. plain_line l \<Longrightarrow>
   dropWhile isspace (printed_lines ls) = printed_lines (dropWhile (\<lambda>l. l = []) ls)"
proof (induction ls)
  case Nil
  then show ?case by (simp add: printed_lines_simps)
next
  case (Cons l ls)
  show ?case
  proof (cases l)
    case Nil
    with Cons show ?thesis
      by (simp add: printed_lines_simps isspace_LF)
  next
    case (Cons x xs)
    with Cons.prems have "\<not> isspace x"
      by (simp add: plain_line_def)
    with Cons show ?thesis
      by (simp add: printed_lines_simps)
  qed
qed

lemma strip_end_printed_lines:
  "\<forall>l \<in> set ls. plain_line l \<Longrightarrow>
   rev (dropWhile isspace (rev (printed_lines ls))) =
     (let ks = rev (dropWhile (\<lambda>l. l = []) (rev ls))
      in if ks = [] then [] else printed_lines (butlast ks) @ last ks)"
proof (induction ls rule: rev_induct)
  case Nil
  then show ?case by (simp add: printed_lines_simps)
next
  case (snoc l ls)
  then have IH: "rev (dropWhile isspace (rev (printed_lines ls))) =
     (let ks = rev (dropWhile (\<lambda>l. l = []) (rev ls))
      in if ks = [] then [] else printed_lines (butlast ks) @ last ks)"
    by simp
  show ?case
  proof (cases "l = []")
    case True
    with IH show ?thesis
      by (simp add: printed_lines_simps isspace_LF)
  next
    case False
    with snoc.prems have "\<not> isspace (last l)"
      by (simp add: plain_line_def)
    with False have "\<not> isspace (hd (rev l))"
      by (simp add: hd_rev)
    moreover from False obtain y ys where "rev l = y # ys"
      by (cases "rev l") auto
    ultimately have "dropWhile isspace (rev l @ rev (printed_lines ls)) =
        rev l @ rev (printed_lines ls)"
      by simp
    with False show ?thesis
      by (simp add: printed_lines_simps isspace_LF)
  qed
qed

lemma splitlines_from_line:
  "\<forall>c \<in> set l. \<not> is_linebreak c \<Longrightarrow>
   splitlines_from acc (l @ CHR 0x0A # rest) = (acc @ l) # splitlines_from [] rest"
proof (induction l arbitrary: acc)
  case Nil
  show ?case
    by (cases rest) (simp_all add: is_linebreak_LF)
next
  case (Cons c l)
  obtain d s where ds: "l @ CHR 0x0A # rest = d # s"
    by (cases "l @ CHR 0x0A # rest") auto
  from Cons.prems have c: "\<not> is_linebreak c" by simp
  then have "c \<noteq> CHR 0x0D" by (auto simp: is_linebreak_def)
  with c have "splitlines_from acc (c # d # s) = splitlines_from (acc @ [c]) (d # s)"
    by simp
  with Cons.IH [of "acc @ [c]"] Cons.prems ds show ?case
    by simp
qed

lemma splitlines_from_last:
  "\<forall>c \<in> set l. \<not> is_linebreak c \<Longrightarrow>
   splitlines_from acc l = (if acc @ l = [] then [] else [acc @ l])"
proof (induction l arbitrary: acc)
  case Nil
  then show ?case by simp
next
  case (Cons c l)
  from Cons.prems have c: "\<not> is_linebreak c" by simp
  then have cr: "c \<noteq> CHR 0x0D" by (auto simp: is_linebreak_def)
  show ?case
  proof (cases l)
    case Nil
    with c show ?thesis by simp
  next
    case (Cons d s)
    with c cr have "splitlines_from acc (c # l) = splitlines_from (acc @ [c]) l"
      by simp
    with Cons.IH [of "acc @ [c]"] Cons.prems show ?thesis
      by simp
  qed
qed

lemma splitlines_printed_lines:
  "\<forall>l \<in> set ls. plain_line l \<Longrightarrow> plain_line k \<Longrightarrow>
   splitlines (printed_lines ls @ k) = ls @ (if k = [] then [] else [k])"
proof (induction ls)
  case Nil
  then show ?case
    using splitlines_from_last [of k "[]"]
    by (simp add: splitlines_def printed_lines_simps plain_line_def)
next
  case (Cons l ls)
  then have "\<forall>c \<in> set l. \<not> is_linebreak c"
    by (simp add: plain_line_def)
  from splitlines_from_line [OF this, of "[]" "printed_lines ls @ k"] Cons
  show ?case
    by (simp add: splitlines_def printed_lines_simps)
qed

lemma filter_dropWhile_neg: "filter (\<lambda>x. \<not> P x) (dropWhile P xs) = filter (\<lambda>x. \<not> P x) xs"
  by (induction xs) auto

lemma nonempty_lines_strip_printed:
  assumes pl: "\<forall>l \<in> set ls. plain_line l"
  shows "filter (\<lambda>f. f \<noteq> []) (splitlines (strip (printed_lines ls))) = filter (\<lambda>l. l \<noteq> []) ls"
proof -
  define ls1 where "ls1 = dropWhile (\<lambda>l. l = []) ls"
  define ks where "ks = rev (dropWhile (\<lambda>l. l = []) (rev ls1))"
  have sub1: "set ls1 \<subseteq> set ls"
    unfolding ls1_def by (auto dest: set_dropWhileD)
  have "set ks \<subseteq> set ls1"
    unfolding ks_def by (auto dest: set_dropWhileD)
  with sub1 have sub2: "set ks \<subseteq> set ls" by blast
  from pl sub1 have pl1: "\<forall>l \<in> set ls1. plain_line l" by blast
  have "strip (printed_lines ls) = rev (dropWhile isspace (rev (printed_lines ls1)))"
    unfolding strip_def ls1_def dropWhile_isspace_printed_lines [OF pl] ..
  also have "\<dots> = (if ks = [] then [] else printed_lines (butlast ks) @ last ks)"
    unfolding strip_end_printed_lines [OF pl1] ks_def Let_def ..
  finally have st: "strip (printed_lines ls) =
      (if ks = [] then [] else printed_lines (butlast ks) @ last ks)" .
  have "filter (\<lambda>l. l \<noteq> []) ks = rev (filter (\<lambda>l. l \<noteq> []) (rev ls1))"
    unfolding ks_def rev_filter [symmetric] filter_dropWhile_neg ..
  also have "\<dots> = filter (\<lambda>l. l \<noteq> []) ls1"
    by (simp only: rev_filter rev_rev_ident)
  also have "\<dots> = filter (\<lambda>l. l \<noteq> []) ls"
    unfolding ls1_def by (rule filter_dropWhile_neg)
  finally have fk: "filter (\<lambda>l. l \<noteq> []) ks = filter (\<lambda>l. l \<noteq> []) ls" .
  show ?thesis
  proof (cases "ks = []")
    case True
    with st have "strip (printed_lines ls) = []" by simp
    moreover from True fk have "filter (\<lambda>l. l \<noteq> []) ls = []" by simp
    ultimately show ?thesis
      by (simp add: splitlines_def)
  next
    case False
    from False have bl: "butlast ks @ [last ks] = ks"
      by (rule append_butlast_last_id)
    from False have "last ks \<in> set ks" by (rule last_in_set)
    with sub2 pl have p2: "plain_line (last ks)" by blast
    have "set (butlast ks) \<subseteq> set ks"
      by (auto dest: in_set_butlastD)
    with sub2 pl have p1: "\<forall>l \<in> set (butlast ks). plain_line l" by blast
    from False st have "strip (printed_lines ls) = printed_lines (butlast ks) @ last ks"
      by simp
    then have "splitlines (strip (printed_lines ls)) =
        butlast ks @ (if last ks = [] then [] else [last ks])"
      using splitlines_printed_lines [OF p1 p2] by simp
    then have "filter (\<lambda>f. f \<noteq> []) (splitlines (strip (printed_lines ls))) =
        filter (\<lambda>f. f \<noteq> []) (butlast ks @ [last ks])"
      by simp
    with bl fk show ?thesis by simp
  qed
qed

subsection \<open>Errors and results\<close>

lemma get_changed_files_nonzero:
  "returncode (run [''git'', ''diff'', ''--name-only'', base_ref @ ''...HEAD''] repo_root) \<noteq> 0 \<Longrightarrow>
   get_changed_files run base_ref repo_root =
     (let err = stderr (run [''git'', ''diff'', ''--name-only'', base_ref @ ''...HEAD''] repo_root)
      in if contains err ''unknown revision'' \<or> contains err ''not a git repository''
         then Inl (ValueError
                (''Could not resolve ref '' @ [CHR 0x27] @ base_ref @ [CHR 0x27] @ ''. '' @
                 ''Does the branch/ref exist? '' @
                 ''Try '' @ [CHR 0x27] @ ''git fetch'' @ [CHR 0x27] @
                 '' or use --base with a valid ref.''))
         else Inl (RuntimeError (''git diff failed: '' @ strip err)))"
  by (simp add: get_changed_files_def Let_def contains_strip_unknown_revision
      contains_strip_not_a_git_repository)

lemma get_changed_files_zero:
  "returncode (run [''git'', ''diff'', ''--name-only'', base_ref @ ''...HEAD''] repo_root) = 0 \<Longrightarrow>
   get_changed_files run base_ref repo_root =
     Inr (filter (\<lambda>f. f \<noteq> [])
       (splitlines (strip
          (stdout (run [''git'', ''diff'', ''--name-only'', base_ref @ ''...HEAD''] repo_root)))))"
  by (simp add: get_changed_files_def Let_def)

lemma message_guides:
  "contains
     (''Could not resolve ref '' @ [CHR 0x27] @ base_ref @ [CHR 0x27] @ ''. '' @
      ''Does the branch/ref exist? '' @
      ''Try '' @ [CHR 0x27] @ ''git fetch'' @ [CHR 0x27] @
      '' or use --base with a valid ref.'') base_ref"
  "contains
     (''Could not resolve ref '' @ [CHR 0x27] @ base_ref @ [CHR 0x27] @ ''. '' @
      ''Does the branch/ref exist? '' @
      ''Try '' @ [CHR 0x27] @ ''git fetch'' @ [CHR 0x27] @
      '' or use --base with a valid ref.'') ''git fetch''"
  "contains
     (''Could not resolve ref '' @ [CHR 0x27] @ base_ref @ [CHR 0x27] @ ''. '' @
      ''Does the branch/ref exist? '' @
      ''Try '' @ [CHR 0x27] @ ''git fetch'' @ [CHR 0x27] @
      '' or use --base with a valid ref.'') ''valid ref''"
proof -
  let ?m = "''Could not resolve ref '' @ [CHR 0x27] @ base_ref @ [CHR 0x27] @ ''. '' @
      ''Does the branch/ref exist? '' @
      ''Try '' @ [CHR 0x27] @ ''git fetch'' @ [CHR 0x27] @
      '' or use --base with a valid ref.''"
  have "?m = (''Could not resolve ref '' @ [CHR 0x27]) @ base_ref @
      ([CHR 0x27] @ ''. '' @ ''Does the branch/ref exist? '' @
      ''Try '' @ [CHR 0x27] @ ''git fetch'' @ [CHR 0x27] @
      '' or use --base with a valid ref.'')"
    by simp
  then show "contains ?m base_ref"
    unfolding contains_sublist by (metis sublist_appendI)
  have "?m = (''Could not resolve ref '' @ [CHR 0x27] @ base_ref @ [CHR 0x27] @ ''. '' @
      ''Does the branch/ref exist? '' @ ''Try '' @ [CHR 0x27]) @ ''git fetch'' @
      ([CHR 0x27] @ '' or use --base with a valid ref.'')"
    by simp
  then show "contains ?m ''git fetch''"
    unfolding contains_sublist by (metis sublist_appendI)
  have "?m = (''Could not resolve ref '' @ [CHR 0x27] @ base_ref @ [CHR 0x27] @ ''. '' @
      ''Does the branch/ref exist? '' @ ''Try '' @ [CHR 0x27] @ ''git fetch'' @ [CHR 0x27] @
      '' or use --base with a '') @ ''valid ref'' @ ''.''"
    by simp
  then show "contains ?m ''valid ref''"
    unfolding contains_sublist by (metis sublist_appendI)
qed

text \<open>
  C5, as amended. A \<^verbatim>\<open>ValueError\<close> is raised exactly when the exit status is not
  zero and the diagnostic stream contains \<^verbatim>\<open>unknown revision\<close> or
  \<^verbatim>\<open>not a git repository\<close>; its message names the reference and tells the caller to
  try \<^verbatim>\<open>git fetch\<close> or to pass a valid ref. Every other non-zero exit raises a
  \<^verbatim>\<open>RuntimeError\<close> whose message is \<^verbatim>\<open>git diff failed: \<close> followed by the
  diagnostic text without the white space at its two ends. On a zero exit no error is
  raised and the result is the non-empty lines of the output taken without the white
  space at its two ends; when the output is a list of lines, each followed by a line
  feed, with no other line boundary and no white space at either end of a line, the
  result is the non-empty lines of that list, in order.
\<close>

theorem change_extractor_error_taxonomy:
  "(let r = run [''git'', ''diff'', ''--name-only'', base_ref @ ''...HEAD''] repo_root;
        unresolvable = (contains (stderr r) ''unknown revision'' \<or>
                        contains (stderr r) ''not a git repository'');
        result = get_changed_files run base_ref repo_root
    in ((\<exists>m. result = Inl (ValueError m)) \<longleftrightarrow> returncode r \<noteq> 0 \<and> unresolvable) \<and>
       (returncode r \<noteq> 0 \<and> unresolvable \<longrightarrow>
          (\<exists>m. result = Inl (ValueError m) \<and> contains m base_ref \<and>
             contains m ''git fetch'' \<and> contains m ''valid ref'')) \<and>
       (returncode r \<noteq> 0 \<and> \<not> unresolvable \<longrightarrow>
          result = Inl (RuntimeError (''git diff failed: '' @ strip (stderr r)))) \<and>
       (returncode r = 0 \<longrightarrow>
          result = Inr (filter (\<lambda>f. f \<noteq> []) (splitlines (strip (stdout r))))) \<and>
       (returncode r = 0 \<longrightarrow>
          (\<forall>ls. stdout r = printed_lines ls \<and> (\<forall>l \<in> set ls. plain_line l) \<longrightarrow>
             result = Inr (filter (\<lambda>l. l \<noteq> []) ls))))"
proof -
  define r where "r = run [''git'', ''diff'', ''--name-only'', base_ref @ ''...HEAD''] repo_root"
  define unresolvable where "unresolvable \<longleftrightarrow>
    contains (stderr r) ''unknown revision'' \<or> contains (stderr r) ''not a git repository''"
  define result where "result = get_changed_files run base_ref repo_root"
  note nz = get_changed_files_nonzero [of run base_ref repo_root, folded r_def result_def]
  note z = get_changed_files_zero [of run base_ref repo_root, folded r_def result_def]
  have a: "(\<exists>m. result = Inl (ValueError m)) \<longleftrightarrow> returncode r \<noteq> 0 \<and> unresolvable"
  proof (cases "returncode r = 0")
    case True
    with z show ?thesis by simp
  next
    case False
    with nz show ?thesis
      by (simp add: Let_def unresolvable_def)
  qed
  have b: "returncode r \<noteq> 0 \<and> unresolvable \<longrightarrow>
      (\<exists>m. result = Inl (ValueError m) \<and> contains m base_ref \<and>
         contains m ''git fetch'' \<and> contains m ''valid ref'')"
    using nz message_guides [of base_ref]
    by (simp add: Let_def unresolvable_def)
  have c: "returncode r \<noteq> 0 \<and> \<not> unresolvable \<longrightarrow>
      result = Inl (RuntimeError (''git diff failed: '' @ strip (stderr r)))"
    using nz by (simp add: Let_def unresolvable_def)
  have d: "returncode r = 0 \<longrightarrow>
      result = Inr (filter (\<lambda>f. f \<noteq> []) (splitlines (strip (stdout r))))"
    using z by simp
  have e: "returncode r = 0 \<longrightarrow>
      (\<forall>ls. stdout r = printed_lines ls \<and> (\<forall>l \<in> set ls. plain_line l) \<longrightarrow>
         result = Inr (filter (\<lambda>l. l \<noteq> []) ls))"
    using z nonempty_lines_strip_printed by simp
  from a b c d e show ?thesis
    unfolding Let_def r_def [symmetric] unresolvable_def [symmetric] result_def [symmetric]
    by blast
qed

lemmas diff_eval =
  get_changed_files_def fake_run_def strip_def isspace_def is_linebreak_def splitlines_def
  startswith_def printed_lines_def plain_line_def Let_def

text \<open>
  The claim as first stated fails where the diagnostic text ends with a line feed, as
  the tool prints it: the message of the \<^verbatim>\<open>RuntimeError\<close> does not contain that
  text. On a zero exit, a first path that begins with a space is returned without the
  space.
\<close>

theorem change_extractor_error_taxonomy_counterexample:
  "get_changed_files
     (fake_run \<lparr>returncode = 128, stdout = [], stderr = ''fatal: bad object'' @ [CHR 0x0A]\<rparr>)
     ''main'' None = Inl (RuntimeError ''git diff failed: fatal: bad object'') \<and>
   \<not> contains ''git diff failed: fatal: bad object'' (''fatal: bad object'' @ [CHR 0x0A]) \<and>
   get_changed_files
     (fake_run \<lparr>returncode = 0, stdout = '' a.py'' @ [CHR 0x0A], stderr = []\<rparr>)
     ''main'' None = Inr [''a.py'']"
  by (simp add: diff_eval)

theorem change_extractor_error_taxonomy_witness:
  "(\<exists>m. get_changed_files
      (fake_run \<lparr>returncode = 128, stdout = [],
         stderr = ''fatal: bad revision: unknown revision or path'' @ [CHR 0x0A]\<rparr>)
      ''main'' None = Inl (ValueError m) \<and> contains m ''main'' \<and>
      contains m ''git fetch'' \<and> contains m ''valid ref'') \<and>
   get_changed_files
     (fake_run \<lparr>returncode = 128, stdout = [], stderr = ''fatal: bad object'' @ [CHR 0x0A]\<rparr>)
     ''main'' None = Inl (RuntimeError ''git diff failed: fatal: bad object'') \<and>
   get_changed_files
     (fake_run \<lparr>returncode = 0, stdout = printed_lines [''a.py'', [], ''dir/b c.py''],
        stderr = []\<rparr>)
     ''main'' None = Inr [''a.py'', ''dir/b c.py'']"
proof -
  let ?r1 = "\<lparr>returncode = 128, stdout = [],
         stderr = ''fatal: bad revision: unknown revision or path'' @ [CHR 0x0A]\<rparr>"
  let ?r2 = "\<lparr>returncode = 128, stdout = [], stderr = ''fatal: bad object'' @ [CHR 0x0A]\<rparr>"
  let ?r3 = "\<lparr>returncode = 0, stdout = printed_lines [''a.py'', [], ''dir/b c.py''],
        stderr = []\<rparr>"
  have h1: "returncode ?r1 \<noteq> 0 \<and>
      (contains (stderr ?r1) ''unknown revision'' \<or>
       contains (stderr ?r1) ''not a git repository'')"
    by (simp add: startswith_def)
  have h2: "returncode ?r2 \<noteq> 0 \<and>
      \<not> (contains (stderr ?r2) ''unknown revision'' \<or>
         contains (stderr ?r2) ''not a git repository'')"
    by (simp add: startswith_def)
  have s2: "strip (stderr ?r2) = ''fatal: bad object''"
    by (simp add: strip_def isspace_def)
  have h3: "returncode ?r3 = 0" by simp
  have p3: "stdout ?r3 = printed_lines [''a.py'', [], ''dir/b c.py''] \<and>
      (\<forall>l \<in> set [''a.py'', [], ''dir/b c.py'']. plain_line l)"
    by (simp add: plain_line_def isspace_def is_linebreak_def)
  note t1 = change_extractor_error_taxonomy [of "fake_run ?r1" "''main''" None,
      unfolded Let_def fake_run_def, THEN conjunct2, THEN conjunct1, THEN mp, OF h1]
  note t2 = change_extractor_error_taxonomy [of "fake_run ?r2" "''main''" None,
      unfolded Let_def fake_run_def, THEN conjunct2, THEN conjunct2, THEN conjunct1,
      THEN mp, OF h2]
  note t3 = change_extractor_error_taxonomy [of "fake_run ?r3" "''main''" None,
      unfolded Let_def fake_run_def, THEN conjunct2, THEN conjunct2, THEN conjunct2,
      THEN conjunct2, THEN mp, OF h3, THEN spec, THEN mp, OF p3]
  from t1 t2 t3 s2 show ?thesis
    unfolding fake_run_def by simp
qed

end
